theory Spec2Isabelle
  imports Main "HOL-Library.Word"
begin

unbundle bit_operations_syntax

section \<open>USART hardware handshaking example: the two interrupt handlers\<close>

text \<open>
  The program is \<^verbatim>\<open>examples/usart_hard_handshaking/main.c\<close>. Its logic lives in two
  interrupt handlers, \<^verbatim>\<open>USART1_IrqHandler\<close> (a receive buffer is full) and
  \<^verbatim>\<open>TC0_IrqHandler\<close> (the one-second timer), and in the last three statements of
  \<^verbatim>\<open>main\<close>. The handlers communicate through the global \<^verbatim>\<open>bytesReceived\<close> and
  through the USART's receive counter and interrupt mask.

  Each handler is a function from the machine state to the machine state. What a handler
  does to the peripherals is kept twice: in the registers the code reads back, and in a
  chronological list of effects, so that the number and the order of the calls can be
  stated.
\<close>

subsection \<open>Constants of the program\<close>

text \<open>\<^verbatim>\<open>#define MAX_BPS 500\<close> and \<^verbatim>\<open>#define BUFFER_SIZE 1\<close>. Both meet the
  \<^verbatim>\<open>uint32_t\<close> counter in the code, so they are 32-bit values here.\<close>

definition MAX_BPS :: "32 word" where
  "MAX_BPS = 500"

definition BUFFER_SIZE :: "32 word" where
  "BUFFER_SIZE = 1"

text \<open>\<^verbatim>\<open>char pString[24]\<close>: the value of \<^verbatim>\<open>sizeof(pString)\<close>.\<close>

definition sizeof_pString :: nat where
  "sizeof_pString = 24"

text \<open>
  Two things the program depends on are not in the sources at hand, and are parameters of
  the model: every theorem stated for a board \<open>b\<close> holds for any values of them.
  \<^item> The status bits the handlers test, from \<^verbatim>\<open>board.h\<close>.
  \<^item> What lies in memory after \<^verbatim>\<open>pString\<close>. \<^verbatim>\<open>sprintf\<close> stores more bytes than the
    array has (see the section on the string buffer), and what the bytes past its end do
    depends on where the linker has put the variables. \<open>past_pString bytes (r, t)\<close> is what
    \<^verbatim>\<open>bytesReceived\<close> and \<^verbatim>\<open>bytesTotal\<close> hold after \<open>bytes\<close> have been stored past
    the end of the array, when they held \<open>r\<close> and \<open>t\<close> before. The two counters are
    the variables of the program in RAM that the model has; the registers of the
    peripherals are at other addresses, out of reach of the few bytes concerned.
\<close>

record board =
  US_CSR_RXBUFF :: "32 word"
  TC_SR_CPCS :: "32 word"
  past_pString :: "char list \<Rightarrow> 32 word \<times> 32 word \<Rightarrow> 32 word \<times> 32 word"

text \<open>Bytes stored from the lowest address of a 32-bit variable on, on a little-endian
  machine: each replaces eight bits, the lowest first; a fifth byte lies past the
  variable.\<close>

fun poke :: "char list \<Rightarrow> 32 word \<Rightarrow> 32 word" where
  "poke [] w = w"
| "poke (c # cs) w = of_char c OR push_bit 8 (poke cs (drop_bit 8 w))"

text \<open>
  A board for the examples: the values of the two masks on the SAM3S (bit 12 of
  \<^verbatim>\<open>US_CSR\<close>, bit 4 of \<^verbatim>\<open>TC_SR\<close>), and a build in which \<^verbatim>\<open>bytesTotal\<close> lies
  directly after \<^verbatim>\<open>pString\<close>, so that the bytes stored past the array replace the low
  bytes of the total.
\<close>

definition total_follows :: "char list \<Rightarrow> 32 word \<times> 32 word \<Rightarrow> 32 word \<times> 32 word" where
  "total_follows bytes v = (fst v, poke bytes (snd v))"

definition sam3s :: board where
  "sam3s = \<lparr>US_CSR_RXBUFF = 0x1000, TC_SR_CPCS = 0x10, past_pString = total_follows\<rparr>"

text \<open>A build in which neither counter lies after \<^verbatim>\<open>pString\<close>.\<close>

definition nothing_follows :: "char list \<Rightarrow> 32 word \<times> 32 word \<Rightarrow> 32 word \<times> 32 word" where
  "nothing_follows bytes v = v"

subsection \<open>Machine state\<close>

datatype effect =
    ReadBuffer "32 word" bool
  | WriteBuffer "char list"
  | IDR_RXBUFF
  | IER_RXBUFF
  | TC_Start

text \<open>
  \<^item> \<open>bytesReceived\<close>: the global \<^verbatim>\<open>volatile uint32_t bytesReceived\<close>;
  \<^item> \<open>bytesTotal\<close>: the \<^verbatim>\<open>static uint32_t bytesTotal\<close> of \<^verbatim>\<open>TC0_IrqHandler\<close>;
  \<^item> \<open>pString\<close>: the bytes of \<^verbatim>\<open>char pString[24]\<close>;
  \<^item> \<open>US_RCR\<close>: the USART's receive counter register, which \<^verbatim>\<open>TC0_IrqHandler\<close> reads;
  \<^item> \<open>rxbuff_irq\<close>: whether the RXBUFF interrupt is enabled: a write of
    \<^verbatim>\<open>US_IER_RXBUFF\<close> to \<^verbatim>\<open>US_IER\<close> sets it, a write of \<^verbatim>\<open>US_IDR_RXBUFF\<close> to
    \<^verbatim>\<open>US_IDR\<close> clears it;
  \<^item> \<open>trace\<close>: the calls to the USART driver and the writes to the interrupt registers,
    oldest first.
\<close>

record machine =
  bytesReceived :: "32 word"
  bytesTotal :: "32 word"
  pString :: "char list"
  US_RCR :: "32 word"
  rxbuff_irq :: bool
  trace :: "effect list"

subsection \<open>The USART driver\<close>

text \<open>
  Modelled from the spec: \<^verbatim>\<open>USART_ReadBuffer\<close> is a function of the board library,
  whose source is missing. The specification gives its contract (section 4.3):
  "armReceive(unit) fails with HardwareFault if the peripheral cannot accept a new
  request", "no buffering beyond one outstanding unit is guaranteed", and a receive is
  outstanding ("armed") until its unit has been received. Hence: the request is accepted
  when no receive is outstanding (\<open>US_RCR = 0\<close>), and the counter then holds the requested length;
  otherwise the request is refused and nothing changes. The result is the C function's
  return value (nonzero on success).
\<close>

definition USART_ReadBuffer :: "32 word \<Rightarrow> machine \<Rightarrow> bool \<times> machine" where
  "USART_ReadBuffer len s =
     (if US_RCR s = 0
      then (True, s\<lparr>US_RCR := len, trace := trace s @ [ReadBuffer len True]\<rparr>)
      else (False, s\<lparr>trace := trace s @ [ReadBuffer len False]\<rparr>))"

text \<open>
  Modelled from the spec: \<^verbatim>\<open>USART_WriteBuffer\<close> is a function of the board library,
  whose source is missing. The specification calls it the Output Sink, to which a report
  record is emitted, and gives it no failure. The record is the first \<open>len\<close> bytes
  of the buffer.
\<close>

definition USART_WriteBuffer :: "char list \<Rightarrow> nat \<Rightarrow> machine \<Rightarrow> machine" where
  "USART_WriteBuffer buffer len s = s\<lparr>trace := trace s @ [WriteBuffer (take len buffer)]\<rparr>"

subsection \<open>Formatting the report\<close>

text \<open>Decimal digits of an unsigned number, as \<^verbatim>\<open>%u\<close> prints them.\<close>

definition digit :: "nat \<Rightarrow> char" where
  "digit d = ''0123456789'' ! d"

fun decimal :: "nat \<Rightarrow> char list" where
  "decimal n = (if n < 10 then [digit n] else decimal (n div 10) @ [digit (n mod 10)])"

declare decimal.simps [simp del]

text \<open>A format string, cut at its conversions: literal text, and \<^verbatim>\<open>%<w>u\<close> (an unsigned
  decimal, right-justified with spaces in a field of at least \<open>w\<close> characters).\<close>

datatype directive = Lit "char list" | U nat

definition conv_u :: "nat \<Rightarrow> nat \<Rightarrow> char list" where
  "conv_u w n = replicate (w - length (decimal n)) CHR '' '' @ decimal n"

fun format :: "directive list \<Rightarrow> nat list \<Rightarrow> char list" where
  "format [] args = []"
| "format (Lit t # ds) args = t @ format ds args"
| "format (U w # ds) (a # args) = conv_u w a @ format ds args"
| "format (U w # ds) [] = format ds []"

text \<open>\<^verbatim>\<open>sprintf\<close> stores the formatted characters and a terminating NUL, starting at the
  first byte of its destination. This is the list of bytes it stores.\<close>

definition sprintf :: "directive list \<Rightarrow> nat list \<Rightarrow> char list" where
  "sprintf ds args = format ds args @ [CHR 0x00]"

text \<open>The format string of the report, \<^verbatim>\<open>"Bps: %4u; Tot: %6u\n\r"\<close>.\<close>

definition report_format :: "directive list" where
  "report_format = [Lit ''Bps: '', U 4, Lit ''; Tot: '', U 6, Lit [CHR 0x0A, CHR 0x0D]]"

text \<open>
  A write of \<open>bytes\<close> at the start of \<^verbatim>\<open>pString\<close> falls in two parts. \<open>store\<close> is
  the array after the write: the bytes that lie inside it, then the old bytes the write
  did not reach. \<open>spill\<close> is the bytes that lie past the end of the array; they go to
  the memory that follows, which \<open>overrun\<close> applies to the two counters.
\<close>

definition store :: "char list \<Rightarrow> char list \<Rightarrow> char list" where
  "store array bytes = take sizeof_pString (bytes @ drop (length bytes) array)"

definition spill :: "char list \<Rightarrow> char list" where
  "spill bytes = drop sizeof_pString bytes"

definition overrun :: "board \<Rightarrow> char list \<Rightarrow> 32 word \<times> 32 word \<Rightarrow> 32 word \<times> 32 word" where
  "overrun b bytes v = (if bytes = [] then v else past_pString b bytes v)"

subsection \<open>The handlers\<close>

text \<open>
  \<^verbatim>\<open>USART1_IrqHandler\<close>. \<open>status\<close> is the value read from \<^verbatim>\<open>US_CSR\<close>. The result of
  \<^verbatim>\<open>USART_ReadBuffer\<close> is discarded, as in the code.
\<close>

definition USART1_IrqHandler :: "board \<Rightarrow> 32 word \<Rightarrow> machine \<Rightarrow> machine" where
  "USART1_IrqHandler b status s =
     (if (status AND US_CSR_RXBUFF b) = US_CSR_RXBUFF b then
        let s1 = s\<lparr>bytesReceived := bytesReceived s + BUFFER_SIZE\<rparr>
        in if bytesReceived s1 < MAX_BPS
           then snd (USART_ReadBuffer BUFFER_SIZE s1)
           else s1\<lparr>rxbuff_irq := False, trace := trace s1 @ [IDR_RXBUFF]\<rparr>
      else s)"

text \<open>
  \<^verbatim>\<open>TC0_IrqHandler\<close>, statement by statement.

  Line 210, \<^verbatim>\<open>bytesTotal += bytesReceived\<close>.
\<close>

definition TC0_line_210 :: "machine \<Rightarrow> machine" where
  "TC0_line_210 s = s\<lparr>bytesTotal := bytesTotal s + bytesReceived s\<rparr>"

text \<open>
  Lines 211 and 212. \<^verbatim>\<open>sprintf\<close> reads the two counters and stores its bytes from the
  start of \<^verbatim>\<open>pString\<close> on: those that fit are in the array afterwards, the others
  land in the memory that follows. Then \<^verbatim>\<open>sizeof(pString)\<close> bytes of the array are
  sent.
\<close>

definition TC0_lines_211_212 :: "board \<Rightarrow> machine \<Rightarrow> machine" where
  "TC0_lines_211_212 b s =
     (let bytes = sprintf report_format [unat (bytesReceived s), unat (bytesTotal s)];
          v = overrun b (spill bytes) (bytesReceived s, bytesTotal s);
          s2 = s\<lparr>pString := store (pString s) bytes, bytesReceived := fst v, bytesTotal := snd v\<rparr>
      in USART_WriteBuffer (pString s2) sizeof_pString s2)"

text \<open>Lines 213 to 220: clear the counter, and restart the receive if none is
  outstanding.\<close>

definition TC0_lines_213_220 :: "machine \<Rightarrow> machine" where
  "TC0_lines_213_220 s =
     (let s4 = s\<lparr>bytesReceived := 0\<rparr>
      in if US_RCR s4 = 0
         then let s5 = snd (USART_ReadBuffer BUFFER_SIZE s4)
              in s5\<lparr>rxbuff_irq := True, trace := trace s5 @ [IER_RXBUFF]\<rparr>
         else s4)"

text \<open>The handler. \<open>dwStatus\<close> is the value read from \<^verbatim>\<open>TC_SR\<close>.\<close>

definition TC0_IrqHandler :: "board \<Rightarrow> 32 word \<Rightarrow> machine \<Rightarrow> machine" where
  "TC0_IrqHandler b dwStatus s =
     (if (dwStatus AND TC_SR_CPCS b) = TC_SR_CPCS b
      then TC0_lines_213_220 (TC0_lines_211_212 b (TC0_line_210 s))
      else s)"

text \<open>
  The end of \<^verbatim>\<open>main\<close>: start the first receive, enable the RXBUFF interrupt, start the
  timer. The configuration of the pins, the USART and the timer, and the banner, come
  before and touch none of the state modelled here.
\<close>

definition main :: "machine \<Rightarrow> machine" where
  "main s =
     (let s1 = snd (USART_ReadBuffer BUFFER_SIZE s);
          s2 = s1\<lparr>rxbuff_irq := True, trace := trace s1 @ [IER_RXBUFF]\<rparr>
      in s2\<lparr>trace := trace s2 @ [TC_Start]\<rparr>)"

text \<open>The state at reset: the globals are zero, no receive is outstanding, the interrupt
  is masked.\<close>

definition reset :: machine where
  "reset = \<lparr>bytesReceived = 0, bytesTotal = 0, pString = replicate 24 (CHR 0x00),
            US_RCR = 0, rxbuff_irq = False, trace = []\<rparr>"

subsection \<open>Events\<close>

text \<open>
  Modelled from the spec: when the handlers run is decided by the hardware, which is not
  in the sources. The specification has two events. The Link Driver "raises a completion
  event when a requested chunk has been fully received": a completion needs an
  outstanding receive (\<open>US_RCR \<noteq> 0\<close>) and the RXBUFF interrupt enabled; the
  counter has then reached zero, and \<^verbatim>\<open>USART1_IrqHandler\<close> reads a status with RXBUFF
  set. The Epoch Clock raises a tick, at which \<^verbatim>\<open>TC0_IrqHandler\<close> reads a status with
  CPCS set. Each handler runs to completion. An event that cannot happen in a state
  gives \<open>None\<close>.
\<close>

datatype event = Completion | Tick

fun fire :: "board \<Rightarrow> event \<Rightarrow> machine \<Rightarrow> machine option" where
  "fire b Completion s =
     (if US_RCR s \<noteq> 0 \<and> rxbuff_irq s
      then Some (USART1_IrqHandler b (US_CSR_RXBUFF b) (s\<lparr>US_RCR := 0\<rparr>))
      else None)"
| "fire b Tick s = Some (TC0_IrqHandler b (TC_SR_CPCS b) s)"

fun run :: "board \<Rightarrow> event list \<Rightarrow> machine \<Rightarrow> machine option" where
  "run b [] s = Some s"
| "run b (e # es) s = (case fire b e s of None \<Rightarrow> None | Some s' \<Rightarrow> run b es s')"

text \<open>The reports sent so far, oldest first, and the number of receive requests.\<close>

fun reports :: "effect list \<Rightarrow> char list list" where
  "reports [] = []"
| "reports (WriteBuffer line # es) = line # reports es"
| "reports (e # es) = reports es"

fun arm_calls :: "effect list \<Rightarrow> nat" where
  "arm_calls [] = 0"
| "arm_calls (ReadBuffer n ok # es) = Suc (arm_calls es)"
| "arm_calls (e # es) = arm_calls es"


text \<open>A run of \<open>k\<close> epochs in each of which \<open>m\<close> transfer units arrive before the
  tick.\<close>

fun bursts :: "nat \<Rightarrow> nat \<Rightarrow> event list" where
  "bursts m 0 = []"
| "bursts m (Suc k) = replicate m Completion @ Tick # bursts m k"


subsection \<open>The report line of the specification\<close>

text \<open>
  The specification's words for the report line (section 6):
  \<^verbatim>\<open>Bps: <epochBytes width 4>; Tot: <totalBytes width 6>\<close> followed by a line terminator,
  with the example \<^verbatim>\<open>Bps:  500; Tot:   1500\<close>: the numbers are in decimal, at the right
  of their fields. The line terminator is the one of the program, a line feed and a
  carriage return.
\<close>

definition spec_report_line :: "nat \<Rightarrow> nat \<Rightarrow> char list" where
  "spec_report_line epochBytes totalBytes =
     ''Bps: '' @ replicate (4 - length (decimal epochBytes)) CHR '' '' @ decimal epochBytes @
     ''; Tot: '' @ replicate (6 - length (decimal totalBytes)) CHR '' '' @ decimal totalBytes @
     [CHR 0x0A, CHR 0x0D]"

section \<open>Basic facts\<close>

lemmas handler_defs = USART1_IrqHandler_def TC0_IrqHandler_def TC0_line_210_def
  TC0_lines_211_212_def TC0_lines_213_220_def USART_ReadBuffer_def USART_WriteBuffer_def Let_def

lemma replicate_numeral: "replicate (numeral k) x = x # replicate (pred_numeral k) x"
  by (simp add: numeral_eq_Suc)

text \<open>Rules for evaluating a concrete state: first the handlers, then the formatting.\<close>

lemmas state_defs = main_def reset_def sam3s_def handler_defs BUFFER_SIZE_def MAX_BPS_def
  sprintf_def report_format_def

lemmas format_defs = conv_u_def decimal.simps digit_def store_def spill_def overrun_def
  total_follows_def sizeof_pString_def replicate_numeral

lemma unat_MAX_BPS: "unat MAX_BPS = 500"
  by (simp add: MAX_BPS_def)

lemma unat_BUFFER_SIZE: "unat BUFFER_SIZE = 1"
  by (simp add: BUFFER_SIZE_def)

lemma reports_append: "reports (xs @ ys) = reports xs @ reports ys"
  by (induction xs rule: reports.induct) simp_all

lemma arm_calls_append: "arm_calls (xs @ ys) = arm_calls xs + arm_calls ys"
  by (induction xs rule: arm_calls.induct) simp_all

lemma run_append:
  "run b (es @ fs) s = (case run b es s of None \<Rightarrow> None | Some t \<Rightarrow> run b fs t)"
  by (induction es arbitrary: s) (simp_all split: option.splits)

text \<open>Below the threshold the counter does not wrap when a transfer unit is added.\<close>

lemma unat_increment:
  assumes "x < MAX_BPS"
  shows "unat (x + BUFFER_SIZE) = unat x + unat BUFFER_SIZE"
proof -
  from assms have "unat x < 500" by (simp add: word_less_nat_alt unat_MAX_BPS)
  then have "unat x + unat BUFFER_SIZE < 2 ^ LENGTH(32)" by (simp add: unat_BUFFER_SIZE)
  then show ?thesis by (simp only: unat_add_lem)
qed


subsection \<open>The length of the formatted report\<close>

lemma length_conv_u: "length (conv_u w n) = max w (length (decimal n))"
  by (simp add: conv_u_def)

lemma length_decimal_le: "n < 10 ^ k \<Longrightarrow> 0 < k \<Longrightarrow> length (decimal n) \<le> k"
proof (induction k arbitrary: n)
  case 0
  then show ?case by simp
next
  case (Suc k)
  show ?case
  proof (cases "n < 10")
    case True
    then show ?thesis by (subst decimal.simps) simp
  next
    case False
    with Suc.prems have k: "0 < k" by (cases k) auto
    from Suc.prems have "n div 10 < 10 ^ k" by (simp add: less_mult_imp_div_less mult.commute)
    from Suc.IH[OF this k] False show ?thesis by (subst decimal.simps) simp
  qed
qed

lemma format_report:
  "format report_format [e, t] =
     ''Bps: '' @ conv_u 4 e @ ''; Tot: '' @ conv_u 6 t @ [CHR 0x0A, CHR 0x0D]"
  by (simp add: report_format_def)

lemma length_sprintf_report:
  "length (sprintf report_format [e, t]) =
     15 + max 4 (length (decimal e)) + max 6 (length (decimal t))"
  by (simp add: sprintf_def format_report length_conv_u)

lemma sprintf_report_overrun: "sizeof_pString < length (sprintf report_format [e, t])"
  by (simp add: length_sprintf_report sizeof_pString_def)

lemma take_store:
  "sizeof_pString \<le> length bytes \<Longrightarrow>
     take sizeof_pString (store array bytes) = take sizeof_pString bytes"
  by (simp add: store_def)

subsection \<open>What one event does\<close>

lemma fire_Completion_fields:
  assumes "fire b Completion s = Some s'"
  shows "bytesReceived s' = bytesReceived s + BUFFER_SIZE"
    and "bytesTotal s' = bytesTotal s"
    and "pString s' = pString s"
    and "bytesReceived s' < MAX_BPS \<Longrightarrow>
           US_RCR s' = BUFFER_SIZE \<and> rxbuff_irq s' \<and>
           trace s' = trace s @ [ReadBuffer BUFFER_SIZE True]"
    and "\<not> bytesReceived s' < MAX_BPS \<Longrightarrow>
           US_RCR s' = 0 \<and> \<not> rxbuff_irq s' \<and> trace s' = trace s @ [IDR_RXBUFF]"
  using assms by (auto simp: handler_defs split: if_splits)

text \<open>The three parts of the tick handler.\<close>

lemma TC0_line_210_fields:
  "bytesReceived (TC0_line_210 s) = bytesReceived s"
  "bytesTotal (TC0_line_210 s) = bytesTotal s + bytesReceived s"
  "US_RCR (TC0_line_210 s) = US_RCR s"
  "rxbuff_irq (TC0_line_210 s) = rxbuff_irq s"
  "trace (TC0_line_210 s) = trace s"
  by (simp_all add: TC0_line_210_def)

lemma TC0_lines_211_212_fields:
  "US_RCR (TC0_lines_211_212 b s) = US_RCR s"
  "rxbuff_irq (TC0_lines_211_212 b s) = rxbuff_irq s"
  "trace (TC0_lines_211_212 b s) = trace s @
     [WriteBuffer (take sizeof_pString
        (sprintf report_format [unat (bytesReceived s), unat (bytesTotal s)]))]"
  "bytesTotal (TC0_lines_211_212 b s) =
     snd (overrun b (spill (sprintf report_format [unat (bytesReceived s), unat (bytesTotal s)]))
            (bytesReceived s, bytesTotal s))"
  "take sizeof_pString (pString (TC0_lines_211_212 b s)) =
     take sizeof_pString (sprintf report_format [unat (bytesReceived s), unat (bytesTotal s)])"
proof -
  have ovr: "sizeof_pString \<le> length (sprintf report_format [e, t])" for e t
    using sprintf_report_overrun[of e t] by simp
  show "US_RCR (TC0_lines_211_212 b s) = US_RCR s"
    "rxbuff_irq (TC0_lines_211_212 b s) = rxbuff_irq s"
    "trace (TC0_lines_211_212 b s) = trace s @
       [WriteBuffer (take sizeof_pString
          (sprintf report_format [unat (bytesReceived s), unat (bytesTotal s)]))]"
    "bytesTotal (TC0_lines_211_212 b s) =
       snd (overrun b (spill (sprintf report_format [unat (bytesReceived s), unat (bytesTotal s)]))
              (bytesReceived s, bytesTotal s))"
    "take sizeof_pString (pString (TC0_lines_211_212 b s)) =
       take sizeof_pString (sprintf report_format [unat (bytesReceived s), unat (bytesTotal s)])"
    by (simp_all add: TC0_lines_211_212_def USART_WriteBuffer_def Let_def take_store ovr)
qed

lemma TC0_lines_213_220_fields:
  "bytesReceived (TC0_lines_213_220 s) = 0"
  "bytesTotal (TC0_lines_213_220 s) = bytesTotal s"
  "pString (TC0_lines_213_220 s) = pString s"
  "US_RCR (TC0_lines_213_220 s) = (if US_RCR s = 0 then BUFFER_SIZE else US_RCR s)"
  "rxbuff_irq (TC0_lines_213_220 s) = (US_RCR s = 0 \<or> rxbuff_irq s)"
  "trace (TC0_lines_213_220 s) =
     trace s @ (if US_RCR s = 0 then [ReadBuffer BUFFER_SIZE True, IER_RXBUFF] else [])"
  by (simp_all add: TC0_lines_213_220_def USART_ReadBuffer_def Let_def)

lemma fire_Tick_fields:
  assumes "fire b Tick s = Some s'"
  shows "bytesTotal s' =
           snd (overrun b
                  (spill (sprintf report_format
                            [unat (bytesReceived s), unat (bytesTotal s + bytesReceived s)]))
                  (bytesReceived s, bytesTotal s + bytesReceived s))"
    and "bytesReceived s' = 0"
    and "US_RCR s' = (if US_RCR s = 0 then BUFFER_SIZE else US_RCR s)"
    and "rxbuff_irq s' = (US_RCR s = 0 \<or> rxbuff_irq s)"
    and "trace s' = trace s @ WriteBuffer (take sizeof_pString
            (sprintf report_format [unat (bytesReceived s), unat (bytesTotal s + bytesReceived s)]))
          # (if US_RCR s = 0 then [ReadBuffer BUFFER_SIZE True, IER_RXBUFF] else [])"
    and "take sizeof_pString (pString s') = take sizeof_pString
            (sprintf report_format [unat (bytesReceived s), unat (bytesTotal s + bytesReceived s)])"
proof -
  from assms have s': "s' = TC0_lines_213_220 (TC0_lines_211_212 b (TC0_line_210 s))"
    by (simp add: TC0_IrqHandler_def)
  show "bytesTotal s' =
           snd (overrun b
                  (spill (sprintf report_format
                            [unat (bytesReceived s), unat (bytesTotal s + bytesReceived s)]))
                  (bytesReceived s, bytesTotal s + bytesReceived s))"
    and "bytesReceived s' = 0"
    and "US_RCR s' = (if US_RCR s = 0 then BUFFER_SIZE else US_RCR s)"
    and "rxbuff_irq s' = (US_RCR s = 0 \<or> rxbuff_irq s)"
    and "trace s' = trace s @ WriteBuffer (take sizeof_pString
            (sprintf report_format [unat (bytesReceived s), unat (bytesTotal s + bytesReceived s)]))
          # (if US_RCR s = 0 then [ReadBuffer BUFFER_SIZE True, IER_RXBUFF] else [])"
    and "take sizeof_pString (pString s') = take sizeof_pString
            (sprintf report_format [unat (bytesReceived s), unat (bytesTotal s + bytesReceived s)])"
    unfolding s'
    by (simp_all add: TC0_lines_213_220_fields TC0_lines_211_212_fields TC0_line_210_fields)
qed

lemma main_reset_fields:
  "bytesReceived (main reset) = 0" "bytesTotal (main reset) = 0"
  "US_RCR (main reset) = BUFFER_SIZE" "rxbuff_irq (main reset)"
  "trace (main reset) = [ReadBuffer BUFFER_SIZE True, IER_RXBUFF, TC_Start]"
  by (simp_all add: main_def reset_def Let_def USART_ReadBuffer_def)

text \<open>Once the receive is not outstanding, or its interrupt is masked, nothing but a tick
  can happen.\<close>

lemma run_no_Tick_suspended:
  assumes "US_RCR s = 0 \<or> \<not> rxbuff_irq s" and "Tick \<notin> set es" and "run b es s = Some t"
  shows "es = [] \<and> t = s"
proof (cases es)
  case Nil
  with assms show ?thesis by simp
next
  case (Cons e es')
  with assms(2) have "e = Completion" by (cases e) auto
  with Cons assms(1,3) show ?thesis by auto
qed
section \<open>The Rate Governor\<close>

text \<open>
  Claim C1. At every receive-completion event the Governor first adds the transfer unit
  (\<open>BUFFER_SIZE\<close>) to the epoch counter. If the new value is strictly below the
  threshold (\<open>MAX_BPS\<close>) it makes exactly one request for a receive of one transfer unit,
  which is accepted; otherwise it makes no request and masks the interrupt. In the state
  it then leaves no completion event can happen, so that no sequence of events without
  a tick adds a receive request.
\<close>

theorem governor_threshold:
  assumes "fire b Completion s = Some s'"
  shows "bytesReceived s' = bytesReceived s + BUFFER_SIZE \<and>
     (if bytesReceived s' < MAX_BPS
      then trace s' = trace s @ [ReadBuffer BUFFER_SIZE True]
      else trace s' = trace s @ [IDR_RXBUFF] \<and>
           fire b Completion s' = None \<and>
           (\<forall>es t. Tick \<notin> set es \<longrightarrow> run b es s' = Some t \<longrightarrow>
                arm_calls (trace t) = arm_calls (trace s')))"
proof (cases "bytesReceived s' < MAX_BPS")
  case True
  with fire_Completion_fields[OF assms] show ?thesis by simp
next
  case False
  from fire_Completion_fields(5)[OF assms False]
  have susp: "US_RCR s' = 0 \<or> \<not> rxbuff_irq s'" and tr: "trace s' = trace s @ [IDR_RXBUFF]"
    by simp_all
  have "\<forall>es t. Tick \<notin> set es \<longrightarrow> run b es s' = Some t \<longrightarrow>
                arm_calls (trace t) = arm_calls (trace s')"
    using run_no_Tick_suspended[OF susp] by blast
  moreover from susp have "fire b Completion s' = None" by auto
  ultimately show ?thesis
    using False tr fire_Completion_fields(1)[OF assms] by (simp del: fire.simps)
qed

text \<open>
  The theorem at two states: after the first byte of a run the Governor asks for the
  next one; at the byte that brings the counter from 499 to 500 it masks the interrupt
  instead, and the number of requests stays as it is.
\<close>

theorem governor_threshold_witness:
  "trace (the (fire sam3s Completion (main reset))) =
     trace (main reset) @ [ReadBuffer BUFFER_SIZE True] \<and>
   bytesReceived (the (fire sam3s Completion (main reset\<lparr>bytesReceived := 499\<rparr>))) = 500 \<and>
   trace (the (fire sam3s Completion (main reset\<lparr>bytesReceived := 499\<rparr>))) =
     trace (main reset) @ [IDR_RXBUFF] \<and>
   arm_calls (trace (the (fire sam3s Completion (main reset\<lparr>bytesReceived := 499\<rparr>)))) =
     arm_calls (trace (main reset))"
proof -
  let ?s = "main reset" and ?z = "main reset\<lparr>bytesReceived := 499\<rparr>"
  let ?s' = "the (fire sam3s Completion ?s)" and ?z' = "the (fire sam3s Completion ?z)"
  have hs: "fire sam3s Completion ?s = Some ?s'"
    by (simp add: state_defs)
  have hz: "fire sam3s Completion ?z = Some ?z'"
    by (simp add: state_defs)
  have lt: "bytesReceived ?s' < MAX_BPS"
    by (simp add: state_defs)
  have ge: "\<not> bytesReceived ?z' < MAX_BPS" and v: "bytesReceived ?z' = 500"
    by (simp_all add: state_defs)
  have tz: "trace ?z = trace ?s"
    by simp
  from governor_threshold[OF hs] lt
  have a: "trace ?s' = trace ?s @ [ReadBuffer BUFFER_SIZE True]"
    by (simp del: fire.simps)
  from governor_threshold[OF hz] ge tz
  have b: "trace ?z' = trace ?s @ [IDR_RXBUFF]"
    by (simp del: fire.simps)
  from b have c: "arm_calls (trace ?z') = arm_calls (trace ?s)"
    by (simp add: arm_calls_append)
  from a b c v show ?thesis by (simp del: fire.simps)
qed


text \<open>The invariant behind the bound: while a receive is outstanding and its interrupt is
  enabled, the counter is below the threshold.\<close>

lemma fire_invariant:
  assumes "fire b e s = Some s'"
    and "(US_RCR s \<noteq> 0 \<and> rxbuff_irq s \<longrightarrow> bytesReceived s < MAX_BPS) \<and>
         unat (bytesReceived s) \<le> unat MAX_BPS + (unat BUFFER_SIZE - 1)"
  shows "(US_RCR s' \<noteq> 0 \<and> rxbuff_irq s' \<longrightarrow> bytesReceived s' < MAX_BPS) \<and>
         unat (bytesReceived s') \<le> unat MAX_BPS + (unat BUFFER_SIZE - 1)"
proof (cases e)
  case Completion
  with assms(1) have f: "fire b Completion s = Some s'" by simp
  then have "US_RCR s \<noteq> 0 \<and> rxbuff_irq s" by (simp split: if_splits)
  with assms(2) have lt: "bytesReceived s < MAX_BPS" by simp
  from fire_Completion_fields(1)[OF f] unat_increment[OF lt]
  have u: "unat (bytesReceived s') = unat (bytesReceived s) + unat BUFFER_SIZE" by simp
  from lt have "unat (bytesReceived s) < unat MAX_BPS" by (simp add: word_less_nat_alt)
  with u have bound: "unat (bytesReceived s') \<le> unat MAX_BPS + (unat BUFFER_SIZE - 1)"
    by (simp add: unat_BUFFER_SIZE)
  show ?thesis
  proof (cases "bytesReceived s' < MAX_BPS")
    case True
    with bound show ?thesis by simp
  next
    case False
    from fire_Completion_fields(5)[OF f False] bound show ?thesis by simp
  qed
next
  case Tick
  with assms(1) have f: "fire b Tick s = Some s'" by simp
  from fire_Tick_fields(2)[OF f] show ?thesis by (simp add: MAX_BPS_def)
qed

lemma run_invariant:
  assumes "run b evs s = Some s'"
    and "(US_RCR s \<noteq> 0 \<and> rxbuff_irq s \<longrightarrow> bytesReceived s < MAX_BPS) \<and>
         unat (bytesReceived s) \<le> unat MAX_BPS + (unat BUFFER_SIZE - 1)"
  shows "(US_RCR s' \<noteq> 0 \<and> rxbuff_irq s' \<longrightarrow> bytesReceived s' < MAX_BPS) \<and>
         unat (bytesReceived s') \<le> unat MAX_BPS + (unat BUFFER_SIZE - 1)"
  using assms
proof (induction evs arbitrary: s)
  case Nil
  then show ?case by simp
next
  case (Cons e evs)
  from Cons.prems(1) obtain t where f: "fire b e s = Some t" and r: "run b evs t = Some s'"
    by (auto simp del: fire.simps split: option.splits)
  from Cons.IH[OF r fire_invariant[OF f Cons.prems(2)]] show ?case .
qed

text \<open>
  Claim C6. In every state that a sequence of events reaches from startup, the epoch
  counter is at most the threshold plus the transfer unit minus one.
\<close>

theorem epoch_count_bounded:
  assumes "run b evs (main reset) = Some s"
  shows "unat (bytesReceived s) \<le> unat MAX_BPS + (unat BUFFER_SIZE - 1)"
proof -
  have "(US_RCR (main reset) \<noteq> 0 \<and> rxbuff_irq (main reset) \<longrightarrow>
           bytesReceived (main reset) < MAX_BPS) \<and>
        unat (bytesReceived (main reset)) \<le> unat MAX_BPS + (unat BUFFER_SIZE - 1)"
    by (simp add: main_reset_fields MAX_BPS_def)
  from run_invariant[OF assms this] show ?thesis by simp
qed

theorem epoch_count_bounded_witness:
  "unat (bytesReceived (the (run sam3s [Completion, Tick, Completion, Completion] (main reset))))
     \<le> 500"
proof -
  have h: "run sam3s [Completion, Tick, Completion, Completion] (main reset) =
             Some (the (run sam3s [Completion, Tick, Completion, Completion] (main reset)))"
    by (simp add: state_defs)
  from epoch_count_bounded[OF h] show ?thesis
    by (simp add: unat_MAX_BPS unat_BUFFER_SIZE del: fire.simps run.simps)
qed

section \<open>The Epoch Reporter\<close>

text \<open>
  Claim C4. Every tick sends exactly one report: after any sequence of events the number
  of reports sent has grown by the number of ticks in the sequence, whatever the counter
  held at each tick.
\<close>

theorem one_report_per_tick:
  "run b evs s = Some s' \<Longrightarrow>
     length (reports (trace s')) = length (reports (trace s)) + count_list evs Tick"
proof (induction evs arbitrary: s)
  case Nil
  then show ?case by simp
next
  case (Cons e evs)
  from Cons.prems obtain t where f: "fire b e s = Some t" and r: "run b evs t = Some s'"
    by (auto simp del: fire.simps split: option.splits)
  have "length (reports (trace t)) = length (reports (trace s)) + (if e = Tick then 1 else 0)"
  proof (cases e)
    case Completion
    with f have f': "fire b Completion s = Some t" by simp
    show ?thesis
      using fire_Completion_fields(4,5)[OF f'] Completion
      by (cases "bytesReceived t < MAX_BPS") (simp_all add: reports_append)
  next
    case Tick
    with f have f': "fire b Tick s = Some t" by simp
    show ?thesis using fire_Tick_fields(5)[OF f'] Tick by (simp add: reports_append)
  qed
  with Cons.IH[OF r] show ?case by simp
qed

text \<open>Three ticks, two of them after an epoch without a byte, give three reports.\<close>

theorem one_report_per_tick_witness:
  "length (reports (trace (the (run sam3s [Tick, Completion, Tick, Tick] (main reset))))) = 3"
proof -
  have h: "run sam3s [Tick, Completion, Tick, Tick] (main reset) =
             Some (the (run sam3s [Tick, Completion, Tick, Tick] (main reset)))"
    by (simp add: state_defs)
  from one_report_per_tick[OF h] show ?thesis
    by (simp add: main_reset_fields del: fire.simps run.simps)
qed

text \<open>
  Claim C5. If the Governor has suspended the intake (a completion brought the counter to
  the threshold, so that it made no request), then no receive is outstanding and the
  interrupt is masked; the tick that follows sends its report, requests a receive of one
  transfer unit, which is accepted, and enables the interrupt. With a receive outstanding
  the USART releases its flow-control line.
\<close>

theorem reporter_resumes:
  assumes "fire b Completion s = Some s1"
    and "\<not> bytesReceived s1 < MAX_BPS"
    and "fire b Tick s1 = Some s2"
  shows "US_RCR s1 = 0 \<and> \<not> rxbuff_irq s1 \<and>
         trace s2 = trace s1 @ [WriteBuffer (take sizeof_pString (pString s2)),
                                ReadBuffer BUFFER_SIZE True, IER_RXBUFF] \<and>
         US_RCR s2 = BUFFER_SIZE \<and> rxbuff_irq s2"
proof -
  from fire_Completion_fields(5)[OF assms(1,2)]
  have z: "US_RCR s1 = 0" and i: "\<not> rxbuff_irq s1" by simp_all
  from fire_Tick_fields(3-5)[OF assms(3)] fire_Tick_fields(6)[OF assms(3), symmetric] z i
  show ?thesis by simp
qed

theorem reporter_resumes_witness:
  "US_RCR (the (fire sam3s Completion (main reset\<lparr>bytesReceived := 499\<rparr>))) = 0 \<and>
   US_RCR (the (fire sam3s Tick
      (the (fire sam3s Completion (main reset\<lparr>bytesReceived := 499\<rparr>))))) = 1 \<and>
   rxbuff_irq (the (fire sam3s Tick
      (the (fire sam3s Completion (main reset\<lparr>bytesReceived := 499\<rparr>)))))"
proof -
  let ?z = "main reset\<lparr>bytesReceived := 499\<rparr>"
  let ?z1 = "the (fire sam3s Completion ?z)"
  have h1: "fire sam3s Completion ?z = Some ?z1"
    by (simp add: state_defs)
  have h2: "\<not> bytesReceived ?z1 < MAX_BPS"
    by (simp add: state_defs)
  have h3: "fire sam3s Tick ?z1 = Some (the (fire sam3s Tick ?z1))"
    by simp
  from reporter_resumes[OF h1 h2 h3] show ?thesis
    by (simp add: BUFFER_SIZE_def del: fire.simps)
qed


section \<open>A refused receive request\<close>

text \<open>
  Claim C9 as stated fails. Let a receive be outstanding when \<^verbatim>\<open>main\<close> makes its
  request. The request is refused, and \<^verbatim>\<open>main\<close> goes on: it enables the interrupt and
  starts the timer.
\<close>

theorem arm_failure_not_loud:
  "trace (main (reset\<lparr>US_RCR := 1\<rparr>)) = [ReadBuffer BUFFER_SIZE False, IER_RXBUFF, TC_Start]"
  by (simp add: main_def reset_def Let_def USART_ReadBuffer_def)

text \<open>
  Claim C9, as amended. A refused request is made once and not repeated, and its result
  is discarded. In a state where a request is refused: \<^verbatim>\<open>main\<close> makes the request,
  enables the interrupt and starts the timer, and changes nothing else; the Governor, at
  a completion below the threshold, adds the transfer unit to the counter, makes the
  request, and changes nothing else; the Reporter makes no request.
\<close>

theorem arm_failure_ignored:
  assumes "US_RCR s \<noteq> 0"
  shows "main s = s\<lparr>rxbuff_irq := True,
                     trace := trace s @ [ReadBuffer BUFFER_SIZE False, IER_RXBUFF, TC_Start]\<rparr> \<and>
         USART1_IrqHandler b status s =
           (if (status AND US_CSR_RXBUFF b) = US_CSR_RXBUFF b
            then if bytesReceived s + BUFFER_SIZE < MAX_BPS
                 then s\<lparr>bytesReceived := bytesReceived s + BUFFER_SIZE,
                        trace := trace s @ [ReadBuffer BUFFER_SIZE False]\<rparr>
                 else s\<lparr>bytesReceived := bytesReceived s + BUFFER_SIZE, rxbuff_irq := False,
                        trace := trace s @ [IDR_RXBUFF]\<rparr>
            else s) \<and>
         arm_calls (trace (TC0_IrqHandler b dwStatus s)) = arm_calls (trace s)"
  using assms by (simp add: main_def handler_defs arm_calls_append)

theorem arm_failure_ignored_witness:
  "USART1_IrqHandler sam3s 0x1000 (reset\<lparr>US_RCR := 1\<rparr>) =
     reset\<lparr>US_RCR := 1, bytesReceived := 1, trace := [ReadBuffer BUFFER_SIZE False]\<rparr> \<and>
   main (reset\<lparr>US_RCR := 1\<rparr>) =
     reset\<lparr>US_RCR := 1, rxbuff_irq := True,
           trace := [ReadBuffer BUFFER_SIZE False, IER_RXBUFF, TC_Start]\<rparr>"
proof -
  have h: "US_RCR (reset\<lparr>US_RCR := 1\<rparr>) \<noteq> 0" by simp
  from arm_failure_ignored[OF h, of sam3s "0x1000"] show ?thesis
    by (simp add: reset_def sam3s_def BUFFER_SIZE_def MAX_BPS_def)
qed


section \<open>The string buffer\<close>

text \<open>
  Claim C10 fails on the code. Whatever the two numbers are, \<^verbatim>\<open>sprintf\<close> stores more
  bytes than \<^verbatim>\<open>pString\<close> has: the shortest report has 24 characters, and the
  terminating NUL is the 25th byte, one past the end of the 24-byte array. This is so at
  the very first tick, where both numbers are zero.
\<close>

theorem pString_overrun:
  "sizeof_pString < length (sprintf report_format [unat e, unat t]) \<and>
   length (sprintf report_format [unat (bytesReceived reset), unat (bytesTotal reset)]) = 25 \<and>
   sizeof_pString = 24"
proof -
  have "length (sprintf report_format [unat (bytesReceived reset), unat (bytesTotal reset)]) = 25"
    by (simp add: reset_def sprintf_def report_format_def format_defs)
  with sprintf_report_overrun[of "unat e" "unat t"] show ?thesis
    by (simp add: sizeof_pString_def)
qed

section \<open>Counting the bytes of an epoch\<close>



subsection \<open>Completions and ticks in any order\<close>






section \<open>The report line and the total\<close>

text \<open>
  Within the widths of the format, that is for an epoch count of at most four digits and
  a total of at most six, the line a tick sends is the line of the specification, 24
  bytes long. For 500 and 1500 it is \<^verbatim>\<open>Bps:  500; Tot:   1500\<close> and the terminator.
\<close>

lemma report_line_format:
  assumes "unat (bytesReceived s) < 10000"
    and "unat (bytesTotal s + bytesReceived s) < 1000000"
    and "fire b Tick s = Some s'"
  shows "reports (trace s') = reports (trace s) @
           [spec_report_line (unat (bytesReceived s)) (unat (bytesTotal s + bytesReceived s))] \<and>
         length (spec_report_line (unat (bytesReceived s))
                   (unat (bytesTotal s + bytesReceived s))) = 24 \<and>
         spec_report_line 500 1500 = ''Bps:  500; Tot:   1500'' @ [CHR 0x0A, CHR 0x0D]"
proof -
  let ?e = "unat (bytesReceived s)" and ?t = "unat (bytesTotal s + bytesReceived s)"
  from assms(1) have le: "length (decimal ?e) \<le> 4"
    using length_decimal_le[of ?e 4] by simp
  from assms(2) have lt: "length (decimal ?t) \<le> 6"
    using length_decimal_le[of ?t 6] by simp
  have fmt: "format report_format [?e, ?t] = spec_report_line ?e ?t"
    by (simp add: format_report conv_u_def spec_report_line_def)
  from le lt have len: "length (spec_report_line ?e ?t) = 24"
    by (simp add: spec_report_line_def)
  then have "take sizeof_pString (sprintf report_format [?e, ?t]) = spec_report_line ?e ?t"
    by (simp add: sprintf_def fmt sizeof_pString_def)
  with fire_Tick_fields(5)[OF assms(3)]
  have "reports (trace s') = reports (trace s) @ [spec_report_line ?e ?t]"
    by (simp add: reports_append)
  moreover have "spec_report_line 500 1500 = ''Bps:  500; Tot:   1500'' @ [CHR 0x0A, CHR 0x0D]"
    by (simp add: spec_report_line_def format_defs)
  ultimately show ?thesis using len by simp
qed

text \<open>Within the widths \<^verbatim>\<open>sprintf\<close> stores one byte past the array, the NUL.\<close>

lemma spill_NUL:
  assumes "e < 10000" and "t < 1000000"
  shows "spill (sprintf report_format [e, t]) = [CHR 0x00]"
proof -
  from assms(1) have "length (decimal e) \<le> 4"
    using length_decimal_le[of e 4] by simp
  moreover from assms(2) have "length (decimal t) \<le> 6"
    using length_decimal_le[of t 6] by simp
  ultimately have "length (format report_format [e, t]) = sizeof_pString"
    by (simp add: format_report length_conv_u sizeof_pString_def)
  then show ?thesis by (simp add: spill_def sprintf_def)
qed

subsection \<open>Epochs of a fixed number of bytes\<close>

lemma unat_of_nat_small: "n < 2 ^ 32 \<Longrightarrow> unat (of_nat n :: 32 word) = n"
  by (simp add: unat_of_nat)

lemma of_nat_less_MAX_BPS: "n < 500 \<Longrightarrow> (of_nat n :: 32 word) < MAX_BPS"
  by (simp add: MAX_BPS_def word_less_nat_alt unat_of_nat)

lemma completions_run:
  assumes "bytesReceived s = of_nat j" and "US_RCR s = BUFFER_SIZE" and "rxbuff_irq s"
    and "j + m < 500"
  shows "\<exists>t. run b (replicate m Completion) s = Some t \<and> bytesReceived t = of_nat (j + m) \<and>
           US_RCR t = BUFFER_SIZE \<and> rxbuff_irq t \<and> bytesTotal t = bytesTotal s \<and>
           reports (trace t) = reports (trace s)"
  using assms
proof (induction m arbitrary: s j)
  case 0
  then show ?case by simp
next
  case (Suc m)
  from Suc.prems(2,3) obtain t where f: "fire b Completion s = Some t"
    by (simp add: BUFFER_SIZE_def)
  from fire_Completion_fields(1)[OF f] Suc.prems(1)
  have c: "bytesReceived t = of_nat (Suc j)" by (simp add: BUFFER_SIZE_def)
  from Suc.prems(4) have "Suc j < 500" by simp
  with c have lt: "bytesReceived t < MAX_BPS" by (simp only: of_nat_less_MAX_BPS)
  from fire_Completion_fields(4)[OF f lt]
  have a: "US_RCR t = BUFFER_SIZE" "rxbuff_irq t" "reports (trace t) = reports (trace s)"
    by (simp_all add: reports_append)
  from Suc.prems(4) have "Suc j + m < 500" by simp
  from Suc.IH[OF c a(1,2) this] obtain u where
    "run b (replicate m Completion) t = Some u" "bytesReceived u = of_nat (Suc j + m)"
    "US_RCR u = BUFFER_SIZE" "rxbuff_irq u" "bytesTotal u = bytesTotal t"
    "reports (trace u) = reports (trace t)"
    by blast
  with f a(3) fire_Completion_fields(2)[OF f] show ?case by simp
qed

lemma burst_epoch:
  assumes "bytesReceived s = 0" and "US_RCR s = BUFFER_SIZE" and "rxbuff_irq s" and "m < 500"
  shows "\<exists>u. run b (replicate m Completion @ [Tick]) s = Some u \<and> bytesReceived u = 0 \<and>
           US_RCR u = BUFFER_SIZE \<and> rxbuff_irq u \<and>
           bytesTotal u =
             snd (overrun b (spill (sprintf report_format [m, unat (bytesTotal s + of_nat m)]))
                    (of_nat m, bytesTotal s + of_nat m)) \<and>
           reports (trace u) = reports (trace s) @
             [take sizeof_pString (sprintf report_format [m, unat (bytesTotal s + of_nat m)])]"
proof -
  from assms(1) have "bytesReceived s = of_nat 0" by simp
  from completions_run[OF this assms(2,3), of m b] assms(4) obtain t where
    r: "run b (replicate m Completion) s = Some t" and t: "bytesReceived t = of_nat m"
    "US_RCR t = BUFFER_SIZE" "rxbuff_irq t" "bytesTotal t = bytesTotal s"
    "reports (trace t) = reports (trace s)"
    by auto
  from assms(4) have m: "unat (of_nat m :: 32 word) = m" by (simp add: unat_of_nat)
  obtain u where g: "fire b Tick t = Some u" by simp
  from fire_Tick_fields(1-5)[OF g] t m
  have "bytesReceived u = 0 \<and> US_RCR u = BUFFER_SIZE \<and> rxbuff_irq u \<and>
        bytesTotal u =
          snd (overrun b (spill (sprintf report_format [m, unat (bytesTotal s + of_nat m)]))
                 (of_nat m, bytesTotal s + of_nat m)) \<and>
        reports (trace u) = reports (trace s) @
          [take sizeof_pString (sprintf report_format [m, unat (bytesTotal s + of_nat m)])]"
    by (simp add: reports_append BUFFER_SIZE_def)
  with r g show ?thesis by (simp add: run_append del: fire.simps)
qed

text \<open>
  Epochs of 256 bytes, on a board on which the NUL stored past \<^verbatim>\<open>pString\<close> leaves a
  total with a zero low byte as it is. The example board is one: there the NUL clears
  the low byte of the total. A board on which nothing follows the array is another.
\<close>

lemma poke_NUL: "take_bit 8 t = 0 \<Longrightarrow> poke [CHR 0x00] t = t"
  using bits_ident[of 8 t] by simp

lemma sam3s_keeps_multiples:
  "\<forall>r t. take_bit 8 t = 0 \<longrightarrow> snd (past_pString sam3s [CHR 0x00] (r, t)) = t"
  by (simp add: sam3s_def total_follows_def poke_NUL del: poke.simps)

lemma nothing_follows_keeps_multiples:
  "\<forall>r t. take_bit 8 t = 0 \<longrightarrow>
     snd (past_pString (sam3s\<lparr>past_pString := nothing_follows\<rparr>) [CHR 0x00] (r, t)) = t"
  by (simp add: nothing_follows_def)

lemma burst_256:
  assumes "\<forall>r t. take_bit 8 t = 0 \<longrightarrow> snd (past_pString b [CHR 0x00] (r, t)) = t"
    and "bytesReceived s = 0" and "US_RCR s = BUFFER_SIZE" and "rxbuff_irq s"
    and "bytesTotal s = of_nat (256 * j)" and "256 * Suc j < 1000000"
  shows "\<exists>u. run b (replicate 256 Completion @ [Tick]) s = Some u \<and> bytesReceived u = 0 \<and>
           US_RCR u = BUFFER_SIZE \<and> rxbuff_irq u \<and> bytesTotal u = of_nat (256 * Suc j) \<and>
           reports (trace u) = reports (trace s) @
             [take sizeof_pString (sprintf report_format [256, 256 * Suc j])]"
proof -
  define n where "n = 256 * Suc j"
  define T :: "32 word" where "T = of_nat n"
  have sum: "bytesTotal s + of_nat 256 = T"
    using assms(5) by (simp add: T_def n_def)
  from assms(6) have small: "n < 1000000" by (simp add: n_def)
  then have "n < 2 ^ 32" by simp
  then have u: "unat T = n"
    unfolding T_def by (rule unat_of_nat_small)
  have z: "take_bit 8 n = 0"
    by (simp add: n_def take_bit_eq_mod)
  have "take_bit 8 T = of_nat (take_bit 8 n)"
    unfolding T_def by (rule take_bit_of_nat)
  also have "\<dots> = 0"
    unfolding z by simp
  finally have p: "take_bit 8 T = 0" .
  from small have sp: "spill (sprintf report_format [256, n]) = [CHR 0x00]"
    by (intro spill_NUL) simp_all
  have ov: "snd (overrun b [CHR 0x00] (of_nat 256, T)) = T"
    using assms(1)[rule_format, OF p, of "of_nat 256"] by (simp add: overrun_def)
  from burst_epoch[OF assms(2-4), of 256 b] obtain v where
    "run b (replicate 256 Completion @ [Tick]) s = Some v" "bytesReceived v = 0"
    "US_RCR v = BUFFER_SIZE" "rxbuff_irq v"
    "bytesTotal v =
       snd (overrun b
              (spill (sprintf report_format [256, unat (bytesTotal s + of_nat 256)]))
              (of_nat 256, bytesTotal s + of_nat 256))"
    "reports (trace v) = reports (trace s) @
       [take sizeof_pString (sprintf report_format [256, unat (bytesTotal s + of_nat 256)])]"
    by auto
  then have "run b (replicate 256 Completion @ [Tick]) s = Some v \<and> bytesReceived v = 0 \<and>
           US_RCR v = BUFFER_SIZE \<and> rxbuff_irq v \<and> bytesTotal v = T \<and>
           reports (trace v) = reports (trace s) @
             [take sizeof_pString (sprintf report_format [256, n])]"
    unfolding sum u sp ov by blast
  then show ?thesis
    unfolding T_def n_def by blast
qed

lemma bursts_snoc: "bursts m (Suc k) = (replicate m Completion @ [Tick]) @ bursts m k"
  by simp

lemma bursts_256:
  assumes "\<forall>r t. take_bit 8 t = 0 \<longrightarrow> snd (past_pString b [CHR 0x00] (r, t)) = t"
    and "bytesReceived s = 0" and "US_RCR s = BUFFER_SIZE" and "rxbuff_irq s"
    and "bytesTotal s = of_nat (256 * j)" and "256 * (j + k) < 1000000"
  shows "\<exists>u. run b (bursts 256 k) s = Some u \<and> bytesReceived u = 0 \<and>
           US_RCR u = BUFFER_SIZE \<and> rxbuff_irq u \<and> bytesTotal u = of_nat (256 * (j + k))"
  using assms(2-6)
proof (induction k arbitrary: s j)
  case 0
  then show ?case by simp
next
  case (Suc k)
  from Suc.prems(5) have "256 * Suc j < 1000000" by simp
  from burst_256[OF assms(1) Suc.prems(1-4) this] obtain t where
    r: "run b (replicate 256 Completion @ [Tick]) s = Some t"
    and t: "bytesReceived t = 0" "US_RCR t = BUFFER_SIZE" "rxbuff_irq t"
      "bytesTotal t = of_nat (256 * Suc j)"
    by blast
  from Suc.prems(5) have "256 * (Suc j + k) < 1000000" by simp
  from Suc.IH[OF t this] obtain u where
    u: "run b (bursts 256 k) t = Some u" "bytesReceived u = 0" "US_RCR u = BUFFER_SIZE"
    "rxbuff_irq u" "bytesTotal u = of_nat (256 * (Suc j + k))"
    by blast
  have "run b (bursts 256 (Suc k)) s = run b (bursts 256 k) t"
    using run_append[of b "replicate 256 Completion @ [Tick]" "bursts 256 k" s] r
    by (simp only: bursts_snoc option.case)
  moreover have "Suc j + k = j + Suc k" by simp
  ultimately show ?case using u by metis
qed

text \<open>After 3906 such epochs the total is 999936, and the tick of one more sends a line
  that is cut.\<close>

lemma seven_digits_cut:
  assumes "\<forall>r t. take_bit 8 t = 0 \<longrightarrow> snd (past_pString b [CHR 0x00] (r, t)) = t"
  shows "map_option (last \<circ> reports \<circ> trace)
           (run b (bursts 256 3906 @ replicate 256 Completion @ [Tick]) (main reset)) =
         Some (''Bps:  256; Tot: 1000192'' @ [CHR 0x0A])"
proof -
  have "bytesTotal (main reset) = of_nat (256 * 0)" by (simp add: main_reset_fields)
  from bursts_256[OF assms main_reset_fields(1,3,4) this, of 3906] obtain s where
    r: "run b (bursts 256 3906) (main reset) = Some s"
    and s: "bytesReceived s = 0" "US_RCR s = BUFFER_SIZE" "rxbuff_irq s" "bytesTotal s = 999936"
    by auto
  from burst_epoch[OF s(1-3), of 256 b] s(4) obtain u where
    g: "run b (replicate 256 Completion @ [Tick]) s = Some u"
    and "reports (trace u) = reports (trace s) @
           [take sizeof_pString (sprintf report_format [256, unat (1000192 :: 32 word)])]"
    by auto
  then have "last (reports (trace u)) =
               take sizeof_pString (sprintf report_format [256, unat (1000192 :: 32 word)])"
    by simp
  also have "\<dots> = ''Bps:  256; Tot: 1000192'' @ [CHR 0x0A]"
    by (simp add: sprintf_def report_format_def format_defs)
  finally have "last (reports (trace u)) = ''Bps:  256; Tot: 1000192'' @ [CHR 0x0A]" .
  then show ?thesis using r g
    by (simp add: run_append del: fire.simps run.simps replicate.simps)
qed

lemma seven_digits_cut_apart:
  "map_option (last \<circ> reports \<circ> trace)
     (run (sam3s\<lparr>past_pString := nothing_follows\<rparr>)
        (bursts 256 3906 @ replicate 256 Completion @ [Tick]) (main reset)) =
   Some (''Bps:  256; Tot: 1000192'' @ [CHR 0x0A])"
  by (rule seven_digits_cut[OF nothing_follows_keeps_multiples])

text \<open>
  Claim C7 fails on the code. On the example board, let 3906 epochs of 256 bytes follow
  startup: the total is 999936. In the next epoch 256 bytes arrive again. The text of the
  report now has 25 characters, since the total has seven digits, and the tick sends the
  first \<^verbatim>\<open>sizeof(pString)\<close> = 24 of them: the line goes out with a total field of seven
  characters and without the carriage return of its terminator.
\<close>

theorem report_line_cut:
  "map_option (last \<circ> reports \<circ> trace)
      (run sam3s (bursts 256 3906 @ replicate 256 Completion @ [Tick]) (main reset)) =
     Some (''Bps:  256; Tot: 1000192'' @ [CHR 0x0A]) \<and>
   ''Bps:  256; Tot: 1000192'' @ [CHR 0x0A] \<noteq> spec_report_line 256 1000192"
proof -
  have "''Bps:  256; Tot: 1000192'' @ [CHR 0x0A] \<noteq> spec_report_line 256 1000192"
    by (simp add: spec_report_line_def format_defs)
  with seven_digits_cut[OF sam3s_keeps_multiples] show ?thesis by simp
qed

text \<open>
  From a total of eight digits on, whatever the board, the 24 bytes sent end inside the
  digits of the total: the line has no line feed and no carriage return at all.
\<close>

lemma length_decimal_pos: "0 < length (decimal n)"
  by (subst decimal.simps) simp

lemma length_decimal_ge: "10 ^ k \<le> n \<Longrightarrow> k < length (decimal n)"
proof (induction k arbitrary: n)
  case 0
  show ?case by (rule length_decimal_pos)
next
  case (Suc k)
  then have "10 ^ k \<le> n div 10" by simp
  from Suc.IH[OF this] have "k < length (decimal (n div 10))" .
  moreover have "\<not> n < 10"
  proof -
    have "(10::nat) ^ 1 \<le> 10 ^ Suc k" by (rule power_increasing) simp_all
    also note Suc.prems
    finally show ?thesis by simp
  qed
  ultimately show ?case by (subst decimal.simps) simp
qed

lemma set_decimal: "set (decimal n) \<subseteq> set ''0123456789''"
proof (induction n rule: decimal.induct)
  case (1 n)
  have d: "digit m \<in> set ''0123456789''" if "m < 10" for m
    unfolding digit_def using that by (intro nth_mem) simp
  show ?case
  proof (cases "n < 10")
    case True
    with d[of n] show ?thesis by (subst decimal.simps) simp
  next
    case False
    with "1.IH" d[of "n mod 10"] show ?thesis by (subst decimal.simps) simp
  qed
qed

lemma decimal_no_terminator:
  "CHR 0x0A \<notin> set (decimal n)" "CHR 0x0D \<notin> set (decimal n)"
proof -
  have "CHR 0x0A \<notin> set ''0123456789''" "CHR 0x0D \<notin> set ''0123456789''"
    by simp_all
  with set_decimal[of n] show "CHR 0x0A \<notin> set (decimal n)" "CHR 0x0D \<notin> set (decimal n)"
    by blast+
qed

lemma conv_u_no_terminator:
  "CHR 0x0A \<notin> set (conv_u w n)" "CHR 0x0D \<notin> set (conv_u w n)"
  by (simp_all add: conv_u_def decimal_no_terminator)

lemma report_line_without_terminator:
  assumes "unat (bytesReceived s) < 10000"
    and "10000000 \<le> unat (bytesTotal s + bytesReceived s)"
    and "fire b Tick s = Some s'"
  shows "CHR 0x0A \<notin> set (last (reports (trace s'))) \<and>
         CHR 0x0D \<notin> set (last (reports (trace s')))"
proof -
  let ?e = "unat (bytesReceived s)" and ?t = "unat (bytesTotal s + bytesReceived s)"
  from assms(1) have "length (decimal ?e) \<le> 4"
    using length_decimal_le[of ?e 4] by simp
  then have le: "length (conv_u 4 ?e) = 4" by (simp add: length_conv_u)
  from assms(2) have lt: "7 < length (decimal ?t)"
    using length_decimal_ge[of 7 ?t] by simp
  then have ct: "conv_u 6 ?t = decimal ?t" by (simp add: conv_u_def)
  from fire_Tick_fields(5)[OF assms(3)]
  have "last (reports (trace s')) = take sizeof_pString (sprintf report_format [?e, ?t])"
    by (simp add: reports_append)
  also have "\<dots> = ''Bps: '' @ conv_u 4 ?e @ ''; Tot: '' @ take 8 (decimal ?t)"
    using le lt by (simp add: sprintf_def format_report ct sizeof_pString_def)
  finally have line: "last (reports (trace s')) =
      ''Bps: '' @ conv_u 4 ?e @ ''; Tot: '' @ take 8 (decimal ?t)" .
  have "CHR 0x0A \<notin> set (take 8 (decimal ?t))" "CHR 0x0D \<notin> set (take 8 (decimal ?t))"
    using decimal_no_terminator[of ?t] set_take_subset[of 8 "decimal ?t"] by blast+
  then show ?thesis
    unfolding line by (simp add: conv_u_no_terminator)
qed


text \<open>
  The state of this tick is reached after \<open>2 ^ 32 - 1\<close> epochs of one byte and one more
  byte, on every board on which the bytes stored past \<^verbatim>\<open>pString\<close> leave the total as
  it is.
\<close>

lemma bursts_1_total:
  assumes "\<forall>bytes v. snd (past_pString b bytes v) = snd v"
    and "bytesReceived s = 0" and "US_RCR s = BUFFER_SIZE" and "rxbuff_irq s"
  shows "\<exists>u. run b (bursts 1 k) s = Some u \<and> bytesReceived u = 0 \<and>
           US_RCR u = BUFFER_SIZE \<and> rxbuff_irq u \<and> bytesTotal u = bytesTotal s + of_nat k"
  using assms(2-4)
proof (induction k arbitrary: s)
  case 0
  then show ?case by simp
next
  case (Suc k)
  have ov: "snd (overrun b bytes v) = snd v" for bytes v
    using assms(1)[rule_format, of bytes v] by (simp add: overrun_def)
  from burst_epoch[OF Suc.prems, of 1 b] obtain t where
    r: "run b (replicate 1 Completion @ [Tick]) s = Some t"
    and t: "bytesReceived t = 0" "US_RCR t = BUFFER_SIZE" "rxbuff_irq t"
    and tt: "bytesTotal t = bytesTotal s + 1"
    by (auto simp: ov)
  from Suc.IH[OF t] obtain u where
    u: "run b (bursts 1 k) t = Some u" "bytesReceived u = 0" "US_RCR u = BUFFER_SIZE"
    "rxbuff_irq u" "bytesTotal u = bytesTotal t + of_nat k"
    by blast
  have "run b (bursts 1 (Suc k)) s = run b (bursts 1 k) t"
    using run_append[of b "replicate 1 Completion @ [Tick]" "bursts 1 k" s] r
    by (simp only: bursts_snoc option.case)
  with u tt show ?case by simp
qed

lemma wrap_state_reached:
  assumes "\<forall>bytes v. snd (past_pString b bytes v) = snd v"
  shows "\<exists>u. run b (bursts 1 4294967295 @ [Completion]) (main reset) = Some u \<and>
           bytesReceived u = 1 \<and> bytesTotal u = 0xFFFFFFFF \<and>
           US_RCR u = US_RCR (main reset) \<and> rxbuff_irq u = rxbuff_irq (main reset)"
proof -
  from bursts_1_total[OF assms main_reset_fields(1,3,4), of 4294967295] obtain s where
    r: "run b (bursts 1 4294967295) (main reset) = Some s"
    and s: "bytesReceived s = 0" "US_RCR s = BUFFER_SIZE" "rxbuff_irq s"
      "bytesTotal s = 0xFFFFFFFF"
    by (auto simp: main_reset_fields)
  from s(1) have "bytesReceived s = of_nat 0" by simp
  from completions_run[OF this s(2,3), of 1 b] obtain u where
    "run b (replicate 1 Completion) s = Some u" "bytesReceived u = 1"
    "US_RCR u = BUFFER_SIZE" "rxbuff_irq u" "bytesTotal u = bytesTotal s"
    by auto
  with r s(4) show ?thesis
    by (simp add: run_append main_reset_fields del: fire.simps)
qed

lemma wrap_state_reached_apart:
  "\<exists>u. run (sam3s\<lparr>past_pString := nothing_follows\<rparr>)
          (bursts 1 4294967295 @ [Completion]) (main reset) = Some u \<and>
       bytesReceived u = 1 \<and> bytesTotal u = 0xFFFFFFFF"
  using wrap_state_reached[of "sam3s\<lparr>past_pString := nothing_follows\<rparr>"]
  by (auto simp: nothing_follows_def)



text \<open>
  What the total holds after this tick is another matter: on the example board the NUL
  that \<^verbatim>\<open>sprintf\<close> stores past \<^verbatim>\<open>pString\<close> has cleared its low byte, and 1003 has
  become 768.
\<close>

lemma total_after_tick_example:
  "bytesTotal (the (fire sam3s Tick (reset\<lparr>bytesReceived := 3, bytesTotal := 1000\<rparr>))) = 768"
  by (simp add: state_defs) (simp_all add: format_defs)

end
